theory Spec2Isabelle
  imports Complex_Main "HOL-Library.Word"
begin

unbundle bit_operations_syntax

section \<open>The buffered RTU port of src/ports/rtubufferedport.js\<close>

subsection \<open>Data\<close>

type_synonym byte = "8 word"

definition EXCEPTION_LENGTH :: nat where
  "EXCEPTION_LENGTH = 5"

definition MAX_BUFFER_LENGTH :: nat where
  "MAX_BUFFER_LENGTH = 256"

text \<open>
  The fields of a \<^verbatim>\<open>RTUBufferedPort\<close>: \<^verbatim>\<open>_buffer\<close>, \<^verbatim>\<open>_id\<close>, \<^verbatim>\<open>_cmd\<close>, \<^verbatim>\<open>_length\<close> and
  \<^verbatim>\<open>debug\<close>. The serial client \<^verbatim>\<open>_client\<close> is an external collaborator: what the port
  hands to it is recorded as an effect.
\<close>

record port =
  p_buffer :: "byte list"
  p_id :: byte
  p_cmd :: byte
  p_length :: int
  debug :: bool

text \<open>
  What a call does to the outside: \<^verbatim>\<open>this.emit('debug', {action: a, data: d})\<close>,
  \<^verbatim>\<open>this.emit('data', d)\<close> and \<^verbatim>\<open>this._client.write(d)\<close>, in the order they happen.
\<close>

datatype effect =
  Emit_debug string "byte list"
| Emit_data "byte list"
| Client_write "byte list"

datatype error = RangeError

text \<open>The state the constructor leaves (lines 23 to 27).\<close>

definition RTUBufferedPort :: port where
  "RTUBufferedPort = \<lparr>p_buffer = [], p_id = 0, p_cmd = 0, p_length = 0, debug = False\<rparr>"

subsection \<open>Buffer primitives of Node\<close>

text \<open>
  \<^verbatim>\<open>buf[i]\<close>: the byte at \<open>i\<close>, or \<^verbatim>\<open>undefined\<close> (here \<open>None\<close>) outside the buffer.
\<close>

definition buf_at :: "byte list \<Rightarrow> nat \<Rightarrow> byte option" where
  "buf_at b i = (if i < length b then Some (b ! i) else None)"

text \<open>
  \<^verbatim>\<open>buf.slice(start, end)\<close>: a negative index counts from the end of the buffer, and
  both indices are clamped to the buffer; an end before the start gives the empty buffer.
\<close>

definition clamp_index :: "int \<Rightarrow> nat \<Rightarrow> nat" where
  "clamp_index k n = (if k < 0 then nat (max 0 (int n + k)) else min (nat k) n)"

definition buffer_slice :: "byte list \<Rightarrow> int \<Rightarrow> int \<Rightarrow> byte list" where
  "buffer_slice b s e =
     take (clamp_index e (length b) - clamp_index s (length b))
          (drop (clamp_index s (length b)) b)"

text \<open>\<^verbatim>\<open>buf.slice(start)\<close>: the end defaults to the length of the buffer.\<close>

definition buffer_slice_from :: "byte list \<Rightarrow> int \<Rightarrow> byte list" where
  "buffer_slice_from b s = buffer_slice b s (int (length b))"

text \<open>
  \<^verbatim>\<open>buf.readUInt16BE(offset)\<close>: two bytes, the high one first; Node throws a
  \<^verbatim>\<open>RangeError\<close> when they are not both inside the buffer.
\<close>

definition readUInt16BE :: "byte list \<Rightarrow> nat \<Rightarrow> error + int" where
  "readUInt16BE b off =
     (if off + 2 \<le> length b
      then Inr (uint (b ! off) * 256 + uint (b ! (off + 1)))
      else Inl RangeError)"

text \<open>
  \<^verbatim>\<open>parseInt(x)\<close> on a number: the number is printed in decimal and the digits before
  the point are read back, which truncates towards zero. (The numbers \<^verbatim>\<open>write\<close> passes
  are multiples of 1/8 between 0.875 and 8192.75: they are exact as doubles and print
  without an exponent.)
\<close>

definition parseInt :: "rat \<Rightarrow> int" where
  "parseInt x = (if x < 0 then \<lceil>x\<rceil> else \<lfloor>x\<rfloor>)"

subsection \<open>Sending: \<^verbatim>\<open>write\<close>\<close>

text \<open>
  \<^verbatim>\<open>RTUBufferedPort.prototype.write\<close> is \<open>port_write\<close> here (\<open>write\<close> is a keyword of
  Isabelle).
\<close>

text \<open>
  The \<^verbatim>\<open>switch (this._cmd)\<close> of \<^verbatim>\<open>write\<close> (lines 127 to 148): the value assigned
  to \<^verbatim>\<open>this._length\<close>.
\<close>

definition answer_length :: "byte \<Rightarrow> byte list \<Rightarrow> error + int" where
  "answer_length c data =
     (if c = 1 \<or> c = 2 then
        (case readUInt16BE data 4 of
           Inl e \<Rightarrow> Inl e
         | Inr len \<Rightarrow> Inr (3 + parseInt ((of_int len - 1) / 8 + 1) + 2))
      else if c = 3 \<or> c = 4 then
        (case readUInt16BE data 4 of
           Inl e \<Rightarrow> Inl e
         | Inr len \<Rightarrow> Inr (3 + 2 * len + 2))
      else if c = 5 \<or> c = 6 \<or> c = 15 \<or> c = 16 then Inr (6 + 2)
      else Inr 0)"

definition port_write :: "byte list \<Rightarrow> port \<Rightarrow> error + (port \<times> effect list)" where
  "port_write data self =
     (if length data < 6 then Inr (self, [])
      else
        (case answer_length (data ! 1) data of
           Inl e \<Rightarrow> Inl e
         | Inr len \<Rightarrow>
             Inr (self\<lparr>p_id := data ! 0, p_cmd := data ! 1, p_length := len\<rparr>,
                  (if debug self then [Emit_debug ''send'' data] else [])
                  @ [Client_write data])))"

subsection \<open>Receiving: \<^verbatim>\<open>_emitData\<close> and the \<^verbatim>\<open>onData\<close> handler\<close>

definition emitData :: "nat \<Rightarrow> int \<Rightarrow> port \<Rightarrow> port \<times> effect list" where
  "emitData start len self =
     (self\<lparr>p_buffer := buffer_slice_from (p_buffer self) (int start + len)\<rparr>,
      (if debug self
       then [Emit_debug ''recive'' (buffer_slice (p_buffer self) (int start) (int start + len))]
       else [])
      @ [Emit_data (buffer_slice (p_buffer self) (int start) (int start + len))])"

text \<open>
  The \<^verbatim>\<open>for\<close> loop of the handler (lines 51 to 68), from offset \<open>i\<close> on. \<open>bufferLength\<close>
  and \<open>maxOffset\<close> are the handler's local variables, passed as they were computed.
\<close>

function scan :: "port \<Rightarrow> int \<Rightarrow> nat \<Rightarrow> nat \<Rightarrow> nat \<Rightarrow> port \<times> effect list" where
  "scan self expectedLength bufferLength maxOffset i =
     (if i \<le> maxOffset then
        (if buf_at (p_buffer self) i \<noteq> Some (p_id self)
         then scan self expectedLength bufferLength maxOffset (i + 1)
         else if buf_at (p_buffer self) (i + 1) = Some (p_cmd self)
                 \<and> int i + expectedLength \<le> int bufferLength
         then emitData i expectedLength self
         else if buf_at (p_buffer self) (i + 1) = Some (0x80 OR p_cmd self)
                 \<and> i + EXCEPTION_LENGTH \<le> bufferLength
         then emitData i (int EXCEPTION_LENGTH) self
         else if buf_at (p_buffer self) (i + 1) = Some (0x7f AND p_cmd self)
         then (self, [])
         else scan self expectedLength bufferLength maxOffset (i + 1))
      else (self, []))"
  by pat_completeness auto
termination
  by (relation "measure (\<lambda>(self, expectedLength, bufferLength, maxOffset, i). maxOffset + 1 - i)")
     auto

declare scan.simps [simp del]

text \<open>
  The handler. \<open>bufferLength\<close> is read once, before the buffer is cut to its last
  \<open>MAX_BUFFER_LENGTH\<close> bytes, and is not read again. Past the gate of line 42 the buffer
  holds at least \<open>EXCEPTION_LENGTH\<close> bytes, so the subtraction of line 50 is exact on
  the naturals.
\<close>

definition onData :: "byte list \<Rightarrow> port \<Rightarrow> port \<times> effect list" where
  "onData data self =
     (let self1 = self\<lparr>p_buffer := p_buffer self @ data\<rparr>;
          expectedLength = p_length self1;
          bufferLength = length (p_buffer self1)
      in if expectedLength < 6 \<or> bufferLength < EXCEPTION_LENGTH then (self1, [])
         else
           let self2 =
                 (if bufferLength > MAX_BUFFER_LENGTH
                  then self1\<lparr>p_buffer :=
                         buffer_slice_from (p_buffer self1) (- int MAX_BUFFER_LENGTH)\<rparr>
                  else self1);
               maxOffset = bufferLength - EXCEPTION_LENGTH
           in scan self2 expectedLength bufferLength maxOffset 0)"

text \<open>
  The transport delivers chunks one after the other, each handled to its end before the
  next: the port after the last chunk and the effects of all of them in order.
\<close>

fun receive_all :: "byte list list \<Rightarrow> port \<Rightarrow> port \<times> effect list" where
  "receive_all [] self = (self, [])"
| "receive_all (chunk # chunks) self =
     (case onData chunk self of
        (self1, es1) \<Rightarrow>
          (case receive_all chunks self1 of (self2, es2) \<Rightarrow> (self2, es1 @ es2)))"

text \<open>The frames carried by the \<^verbatim>\<open>data\<close> events among some effects.\<close>

fun data_events :: "effect list \<Rightarrow> byte list list" where
  "data_events [] = []"
| "data_events (Emit_data f # es) = f # data_events es"
| "data_events (e # es) = data_events es"

text \<open>The command codes \<^verbatim>\<open>write\<close> has a case for.\<close>

definition recognized :: "byte \<Rightarrow> bool" where
  "recognized c = (c = 1 \<or> c = 2 \<or> c = 3 \<or> c = 4 \<or> c = 5 \<or> c = 6 \<or> c = 15 \<or> c = 16)"

text \<open>
  The buffer the loop looks at: the last \<open>MAX_BUFFER_LENGTH\<close> bytes of the appended
  buffer when it is longer than that (lines 45 to 47), the whole of it otherwise.
\<close>

definition retained :: "byte list \<Rightarrow> byte list" where
  "retained b =
     (if length b > MAX_BUFFER_LENGTH then buffer_slice_from b (- int MAX_BUFFER_LENGTH) else b)"

text \<open>
  The two ways the loop calls \<^verbatim>\<open>_emitData\<close>: \<open>scan_hit self e bl m i j r\<close> says that at
  an offset \<open>j\<close> between \<open>i\<close> and \<open>m\<close> the unit identifier matches and \<open>r\<close> is the outcome
  of the normal match (line 57) or of the exception match (line 61) there.
\<close>

definition scan_hit ::
  "port \<Rightarrow> int \<Rightarrow> nat \<Rightarrow> nat \<Rightarrow> nat \<Rightarrow> nat \<Rightarrow> port \<times> effect list \<Rightarrow> bool" where
  "scan_hit self e bl m i j r \<longleftrightarrow>
     i \<le> j \<and> j \<le> m \<and> buf_at (p_buffer self) j = Some (p_id self) \<and>
      ((buf_at (p_buffer self) (j + 1) = Some (p_cmd self) \<and> int j + e \<le> int bl
          \<and> r = emitData j e self)
       \<or> (buf_at (p_buffer self) (j + 1) = Some (0x80 OR p_cmd self)
          \<and> j + EXCEPTION_LENGTH \<le> bl
          \<and> r = emitData j (int EXCEPTION_LENGTH) self))"

text \<open>A frame cut into chunks of one byte each, in order.\<close>

definition single_bytes :: "byte list \<Rightarrow> byte list list" where
  "single_bytes frame = map (\<lambda>b. [b]) frame"

section \<open>Properties\<close>

subsection \<open>Helper facts on the buffer primitives\<close>

lemma buffer_slice_nat:
  "0 \<le> len \<Longrightarrow> buffer_slice b (int j) (int j + len) = take (nat len) (drop j b)"
  by (cases "j < length b")
     (auto simp: buffer_slice_def clamp_index_def min_def nat_add_distrib)

lemma buffer_slice_from_nat:
  "0 \<le> k \<Longrightarrow> buffer_slice_from b k = drop (nat k) b"
  by (auto simp: buffer_slice_from_def buffer_slice_def clamp_index_def min_def)

lemma buffer_slice_from_neg:
  "k < 0 \<Longrightarrow> buffer_slice_from b k = drop (nat (int (length b) + k)) b"
  by (simp add: buffer_slice_from_def buffer_slice_def clamp_index_def max_def)

lemma retained_eq: "retained b = drop (length b - MAX_BUFFER_LENGTH) b"
  by (simp add: retained_def buffer_slice_from_neg MAX_BUFFER_LENGTH_def nat_diff_distrib')

lemma length_retained: "length (retained b) \<le> MAX_BUFFER_LENGTH"
  by (simp add: retained_eq)

lemma take_drop_head2:
  "j + 1 < length b \<Longrightarrow> 2 \<le> n \<Longrightarrow>
   take n (drop j b) = b ! j # b ! (j + 1) # take (n - 2) (drop (j + 2) b)"
proof -
  assume j: "j + 1 < length b" and n: "2 \<le> n"
  have "drop j b = b ! j # drop (Suc j) b" using j by (simp add: Cons_nth_drop_Suc)
  also have "drop (Suc j) b = b ! (j + 1) # drop (j + 2) b"
    using j by (simp add: Cons_nth_drop_Suc)
  finally have d: "drop j b = b ! j # b ! (j + 1) # drop (j + 2) b" .
  obtain k where k: "n = Suc (Suc k)" using n by (metis add_2_eq_Suc le_Suc_ex)
  show ?thesis unfolding d k by simp
qed

lemma parseInt_eighths:
  "0 \<le> q \<Longrightarrow> parseInt ((of_int q - 1) / 8 + 1) = (q + 7) div 8"
proof -
  assume q: "0 \<le> q"
  have eq: "(of_int q - 1) / 8 + 1 = (of_int (q + 7) :: rat) / of_int 8"
    by (simp add: field_simps)
  have nonneg: "\<not> (of_int (q + 7) :: rat) / of_int 8 < 0"
    using q by (simp add: field_simps)
  show ?thesis
    unfolding parseInt_def eq using nonneg
    by (simp only: if_False floor_divide_of_int_eq)
qed

subsection \<open>Helper facts on the handler\<close>

lemma emitData_nat:
  "0 \<le> len \<Longrightarrow>
   emitData i len self =
     (self\<lparr>p_buffer := drop (i + nat len) (p_buffer self)\<rparr>,
      (if debug self then [Emit_debug ''recive'' (take (nat len) (drop i (p_buffer self)))] else [])
      @ [Emit_data (take (nat len) (drop i (p_buffer self)))])"
  by (simp add: emitData_def buffer_slice_nat buffer_slice_from_nat nat_add_distrib)

lemma scan_hit_mono: "scan_hit self e bl m (i + 1) j r \<Longrightarrow> scan_hit self e bl m i j r"
  by (simp add: scan_hit_def)

lemma scan_result:
  "scan self e bl m i = (self, []) \<or> (\<exists>j. scan_hit self e bl m i j (scan self e bl m i))"
proof (induction self e bl m i rule: scan.induct)
  case (1 self e bl m i)
  show ?case
  proof (cases "i \<le> m")
    case False
    then have "scan self e bl m i = (self, [])" by (subst scan.simps) simp
    then show ?thesis by simp
  next
    case im: True
    show ?thesis
    proof (cases "buf_at (p_buffer self) i \<noteq> Some (p_id self)")
      case True
      have eq: "scan self e bl m i = scan self e bl m (i + 1)"
        using im True by (subst scan.simps) simp
      from "1.IH"(1) [OF im True] show ?thesis
        unfolding eq by (blast intro: scan_hit_mono)
    next
      case idm: False
      show ?thesis
      proof (cases "buf_at (p_buffer self) (i + 1) = Some (p_cmd self) \<and> int i + e \<le> int bl")
        case True
        have eq: "scan self e bl m i = emitData i e self"
          using im idm True by (subst scan.simps) simp
        have "scan_hit self e bl m i i (emitData i e self)"
          using im idm True by (simp add: scan_hit_def)
        then show ?thesis unfolding eq by blast
      next
        case n1: False
        show ?thesis
        proof (cases "buf_at (p_buffer self) (i + 1) = Some (0x80 OR p_cmd self)
                 \<and> i + EXCEPTION_LENGTH \<le> bl")
          case True
          have eq: "scan self e bl m i = emitData i (int EXCEPTION_LENGTH) self"
            using im idm n1 True by (subst scan.simps) auto
          have "scan_hit self e bl m i i (emitData i (int EXCEPTION_LENGTH) self)"
            using im idm True by (simp add: scan_hit_def)
          then show ?thesis unfolding eq by blast
        next
          case n2: False
          show ?thesis
          proof (cases "buf_at (p_buffer self) (i + 1) = Some (0x7f AND p_cmd self)")
            case True
            have eq: "scan self e bl m i = (self, [])"
              using im idm n1 n2 True by (subst scan.simps) auto
            then show ?thesis by simp
          next
            case n3: False
            have eq: "scan self e bl m i = scan self e bl m (i + 1)"
              using im idm n1 n2 n3 by (subst scan.simps) auto
            from "1.IH"(2) [OF im idm n1 n2 n3] show ?thesis
              unfolding eq by (blast intro: scan_hit_mono)
          qed
        qed
      qed
    qed
  qed
qed

lemma onData_gated:
  "p_length self < 6 \<or> length (p_buffer self @ data) < EXCEPTION_LENGTH \<Longrightarrow>
   onData data self = (self\<lparr>p_buffer := p_buffer self @ data\<rparr>, [])"
  by (auto simp: onData_def Let_def)

lemma onData_scan:
  "6 \<le> p_length self \<Longrightarrow> EXCEPTION_LENGTH \<le> length (p_buffer self @ data) \<Longrightarrow>
   onData data self =
     scan (self\<lparr>p_buffer := retained (p_buffer self @ data)\<rparr>) (p_length self)
       (length (p_buffer self @ data)) (length (p_buffer self @ data) - EXCEPTION_LENGTH) 0"
  by (simp add: onData_def Let_def retained_def not_less)

lemma onData_result:
  "onData data self = (self\<lparr>p_buffer := p_buffer self @ data\<rparr>, [])
   \<or> onData data self = (self\<lparr>p_buffer := retained (p_buffer self @ data)\<rparr>, [])
   \<or> (6 \<le> p_length self \<and>
       (\<exists>j. scan_hit (self\<lparr>p_buffer := retained (p_buffer self @ data)\<rparr>) (p_length self)
              (length (p_buffer self @ data)) (length (p_buffer self @ data) - EXCEPTION_LENGTH)
              0 j (onData data self)))"
proof (cases "p_length self < 6 \<or> length (p_buffer self @ data) < EXCEPTION_LENGTH")
  case True
  then show ?thesis by (simp only: onData_gated simp_thms)
next
  case False
  then have a: "6 \<le> p_length self" "EXCEPTION_LENGTH \<le> length (p_buffer self @ data)"
    by simp_all
  show ?thesis
    unfolding onData_scan [OF a]
    using scan_result [of "self\<lparr>p_buffer := retained (p_buffer self @ data)\<rparr>" "p_length self"
        "length (p_buffer self @ data)" "length (p_buffer self @ data) - EXCEPTION_LENGTH" 0] a(1)
    by auto
qed

lemma split_at_frame: "b = take j b @ take n (drop j b) @ drop (j + n) b"
proof -
  have "drop j b = take n (drop j b) @ drop n (drop j b)"
    by (rule append_take_drop_id [symmetric])
  also have "drop n (drop j b) = drop (j + n) b" by (simp add: add.commute)
  finally have "take j b @ drop j b = take j b @ take n (drop j b) @ drop (j + n) b"
    by (rule arg_cong)
  then show ?thesis by (simp only: append_take_drop_id)
qed

lemma data_events_emit:
  "data_events ((if d then [Emit_debug a f] else []) @ [Emit_data f]) = [f]"
  by simp

lemma emitData_facts:
  assumes "0 \<le> len" and "r = emitData j len self"
  shows "data_events (snd r) = [take (nat len) (drop j (p_buffer self))]"
    and "Emit_data f \<in> set (snd r) \<Longrightarrow> f = take (nat len) (drop j (p_buffer self))"
    and "fst r = self\<lparr>p_buffer := drop (j + nat len) (p_buffer self)\<rparr>"
  using assms by (auto simp: emitData_nat split: if_splits)

lemma scan_hit_emit:
  assumes "scan_hit self e bl m i j r" and "0 \<le> e"
  obtains len where "0 \<le> len" and "r = emitData j len self"
  using assms unfolding scan_hit_def by (metis of_nat_0_le_iff)

lemma onData_capped_when_armed:
  assumes "6 \<le> p_length self"
  shows "length (p_buffer (fst (onData data self))) \<le> MAX_BUFFER_LENGTH"
proof -
  let ?b = "retained (p_buffer self @ data)"
  let ?s = "self\<lparr>p_buffer := ?b\<rparr>"
  let ?r = "onData data self"
  show ?thesis
  proof (cases "length (p_buffer self @ data) < EXCEPTION_LENGTH")
    case True
    then show ?thesis
      by (simp add: onData_gated EXCEPTION_LENGTH_def MAX_BUFFER_LENGTH_def)
  next
    case False
    then have a: "EXCEPTION_LENGTH \<le> length (p_buffer self @ data)" by simp
    let ?bl = "length (p_buffer self @ data)"
    from scan_result [of ?s "p_length self" ?bl "?bl - EXCEPTION_LENGTH" 0]
    consider (quiet) "?r = (?s, [])"
      | (hit) j where "scan_hit ?s (p_length self) ?bl (?bl - EXCEPTION_LENGTH) 0 j ?r"
      unfolding onData_scan [OF assms a] by blast
    then show ?thesis
    proof cases
      case quiet
      then show ?thesis by (simp add: length_retained)
    next
      case hit
      then obtain len where len: "0 \<le> len" "?r = emitData j len ?s"
        using assms by (elim scan_hit_emit) simp_all
      have "length (p_buffer (fst ?r)) \<le> length ?b"
        using emitData_facts(3) [OF len] by simp
      with length_retained [of "p_buffer self @ data"] show ?thesis by simp
    qed
  qed
qed

lemma recognized_high_bit:
  "recognized c \<Longrightarrow> c \<noteq> 0x80 OR c \<and> 0x7f AND c = c"
  unfolding recognized_def by (elim disjE) simp_all

lemma prefix_header:
  assumes "b @ ys = u # c # rest" and "1 < length b"
  shows "b ! 0 = u \<and> b ! 1 = c"
proof (cases b)
  case Nil
  with assms(2) show ?thesis by simp
next
  case outer: (Cons x b')
  show ?thesis
  proof (cases b')
    case Nil
    with outer assms(2) show ?thesis by simp
  next
    case (Cons z b'')
    with outer assms(1) show ?thesis by simp
  qed
qed

lemma scan_head_partial:
  assumes "EXCEPTION_LENGTH \<le> bl" 
    and "buf_at (p_buffer s) 0 = Some (p_id s)" and "buf_at (p_buffer s) 1 = Some (p_cmd s)"
    and "recognized (p_cmd s)" and "\<not> e \<le> int bl"
  shows "scan s e bl (bl - EXCEPTION_LENGTH) 0 = (s, [])"
  using assms recognized_high_bit [OF assms(4)]
  by (subst scan.simps) simp

lemma scan_head_full:
  assumes "buf_at (p_buffer s) 0 = Some (p_id s)" and "buf_at (p_buffer s) 1 = Some (p_cmd s)"
    and "e \<le> int bl"
  shows "scan s e bl m 0 = emitData 0 e s"
  using assms by (subst scan.simps) simp

lemma receive_all_gated:
  "p_length self < 6 \<Longrightarrow>
   receive_all chunks self = (self\<lparr>p_buffer := p_buffer self @ concat chunks\<rparr>, [])"
proof (induction chunks arbitrary: self)
  case Nil
  then show ?case by simp
next
  case (Cons chunk chunks)
  have "onData chunk self = (self\<lparr>p_buffer := p_buffer self @ chunk\<rparr>, [])"
    using Cons.prems by (simp add: onData_gated)
  moreover have "receive_all chunks (self\<lparr>p_buffer := p_buffer self @ chunk\<rparr>)
      = (self\<lparr>p_buffer := (p_buffer self @ chunk) @ concat chunks\<rparr>, [])"
    using Cons.IH [of "self\<lparr>p_buffer := p_buffer self @ chunk\<rparr>"] Cons.prems by simp
  ultimately show ?case by simp
qed

lemma onData_prefix:
  assumes shape: "frame = p_id s # p_cmd s # rest" "p_length s = int (length frame)"
      "6 \<le> length frame" "length frame \<le> MAX_BUFFER_LENGTH" "recognized (p_cmd s)"
    and split: "p_buffer s @ chunk @ ys = frame" "ys \<noteq> []"
  shows "onData chunk s = (s\<lparr>p_buffer := p_buffer s @ chunk\<rparr>, [])"
proof (cases "length (p_buffer s @ chunk) < EXCEPTION_LENGTH")
  case True
  then show ?thesis by (simp add: onData_gated)
next
  case False
  let ?b = "p_buffer s @ chunk"
  let ?s = "s\<lparr>p_buffer := ?b\<rparr>"
  have fr: "frame = ?b @ ys" using split(1) by simp
  have len: "length ?b < length frame" using split(2) unfolding fr by simp
  have five: "EXCEPTION_LENGTH \<le> length ?b" using False by simp
  then have two: "1 < length ?b" by (simp add: EXCEPTION_LENGTH_def)
  have ret: "retained ?b = ?b" using len shape(4) by (simp add: retained_def)
  have "?b @ ys = p_id s # p_cmd s # rest" using fr shape(1) by simp
  from prefix_header [OF this two] have b0: "?b ! 0 = p_id s" and b1: "?b ! 1 = p_cmd s"
    by simp_all
  have a: "6 \<le> p_length s" using shape(2,3) by simp
  have "onData chunk s = scan ?s (p_length s) (length ?b) (length ?b - EXCEPTION_LENGTH) 0"
    using onData_scan [OF a five] unfolding ret .
  also have "\<dots> = (?s, [])"
  proof (rule scan_head_partial)
    show "EXCEPTION_LENGTH \<le> length ?b" by (rule five)
    show "buf_at (p_buffer ?s) 0 = Some (p_id ?s)" using two b0 by (auto simp: buf_at_def)
    show "buf_at (p_buffer ?s) 1 = Some (p_cmd ?s)" using two b1 by (simp add: buf_at_def)
    show "recognized (p_cmd ?s)" using shape(5) by simp
    show "\<not> p_length s \<le> int (length ?b)" using len shape(2) by simp
  qed
  finally show ?thesis .
qed

lemma onData_complete:
  assumes shape: "frame = p_id s # p_cmd s # rest" "p_length s = int (length frame)"
      "6 \<le> length frame" "length frame \<le> MAX_BUFFER_LENGTH"
    and split: "p_buffer s @ chunk = frame"
  shows "onData chunk s =
     (s\<lparr>p_buffer := []\<rparr>,
      (if debug s then [Emit_debug ''recive'' frame] else []) @ [Emit_data frame])"
proof -
  let ?s = "s\<lparr>p_buffer := frame\<rparr>"
  have ret: "retained frame = frame" using shape(4) by (simp add: retained_def)
  have a: "6 \<le> p_length s" using shape(2,3) by simp
  have five: "EXCEPTION_LENGTH \<le> length (p_buffer s @ chunk)"
    using shape(3) unfolding split by (simp add: EXCEPTION_LENGTH_def)
  have "onData chunk s = scan ?s (p_length s) (length frame) (length frame - EXCEPTION_LENGTH) 0"
    using onData_scan [OF a five] unfolding split ret .
  also have "\<dots> = emitData 0 (p_length s) ?s"
  proof (rule scan_head_full)
    have "frame ! 0 = p_id s" by (subst shape(1)) simp
    then show "buf_at (p_buffer ?s) 0 = Some (p_id ?s)"
      using shape(3) by (auto simp: buf_at_def)
    have "frame ! 1 = p_cmd s" by (subst shape(1)) simp
    then show "buf_at (p_buffer ?s) 1 = Some (p_cmd ?s)"
      using shape(3) by (simp add: buf_at_def)
    show "p_length s \<le> int (length frame)" using shape(2) by simp
  qed
  also have "\<dots> = (s\<lparr>p_buffer := []\<rparr>,
      (if debug s then [Emit_debug ''recive'' frame] else []) @ [Emit_data frame])"
    using shape(2) by (simp add: emitData_nat)
  finally show ?thesis .
qed

lemma receive_bytewise:
  assumes shape: "frame = u # c # rest" "6 \<le> length frame" "length frame \<le> MAX_BUFFER_LENGTH"
      "recognized c"
    and s: "p_id s = u" "p_cmd s = c" "p_length s = int (length frame)"
  shows "xs @ ys = frame \<Longrightarrow> ys \<noteq> [] \<Longrightarrow>
     receive_all (map (\<lambda>b. [b]) ys) (s\<lparr>p_buffer := xs\<rparr>) =
       (s\<lparr>p_buffer := []\<rparr>,
        (if debug s then [Emit_debug ''recive'' frame] else []) @ [Emit_data frame])"
proof (induction ys arbitrary: xs)
  case Nil
  then show ?case by simp
next
  case (Cons y ys)
  let ?s = "s\<lparr>p_buffer := xs\<rparr>"
  have sh: "frame = p_id ?s # p_cmd ?s # rest" "p_length ?s = int (length frame)"
    using shape(1) s by simp_all
  show ?case
  proof (cases "ys = []")
    case True
    have "p_buffer ?s @ [y] = frame" using Cons.prems(1) True by simp
    from onData_complete [OF sh shape(2,3) this] True show ?thesis by simp
  next
    case False
    have rc: "recognized (p_cmd ?s)" using shape(4) s by simp
    have "p_buffer ?s @ [y] @ ys = frame" using Cons.prems(1) by simp
    from onData_prefix [OF sh shape(2,3) rc this False]
    have step: "onData [y] ?s = (s\<lparr>p_buffer := xs @ [y]\<rparr>, [])" by simp
    have "(xs @ [y]) @ ys = frame" using Cons.prems(1) by simp
    from Cons.IH [OF this False] step show ?thesis by simp
  qed
qed

lemma scan_no_id:
  "p_id self \<notin> set (p_buffer self) \<Longrightarrow> scan self e bl m i = (self, [])"
proof (induction self e bl m i rule: scan.induct)
  case (1 self e bl m i)
  have miss: "buf_at (p_buffer self) i \<noteq> Some (p_id self)"
  proof
    assume "buf_at (p_buffer self) i = Some (p_id self)"
    then have "i < length (p_buffer self)" "p_buffer self ! i = p_id self"
      by (simp_all add: buf_at_def split: if_splits)
    then have "p_id self \<in> set (p_buffer self)" by (metis nth_mem)
    with "1.prems" show False by simp
  qed
  show ?case
  proof (cases "i \<le> m")
    case True
    have "scan self e bl m i = scan self e bl m (i + 1)"
      using True miss by (subst scan.simps) simp
    with "1.IH"(1) [OF True miss "1.prems"] show ?thesis by simp
  next
    case False
    then show ?thesis by (subst scan.simps) simp
  qed
qed

lemmas eval_onData =
  onData_def Let_def EXCEPTION_LENGTH_def MAX_BUFFER_LENGTH_def buf_at_def scan.simps
  emitData_nat RTUBufferedPort_def

subsection \<open>Helper facts on \<^verbatim>\<open>write\<close>\<close>

lemma readUInt16BE_4:
  "6 \<le> length data \<Longrightarrow> readUInt16BE data 4 = Inr (uint (data ! 4) * 256 + uint (data ! 5))"
  by (simp add: readUInt16BE_def)

lemma readUInt16BE_range:
  "readUInt16BE data off = Inr q \<Longrightarrow> 0 \<le> q \<and> q \<le> 65535"
proof -
  assume h: "readUInt16BE data off = Inr q"
  have a: "uint (data ! off) \<le> 255" using uint_bounded [of "data ! off"] by simp
  have b: "uint (data ! (off + 1)) \<le> 255" using uint_bounded [of "data ! (off + 1)"] by simp
  have c: "0 \<le> uint (data ! off)" "0 \<le> uint (data ! (off + 1))" by simp_all
  from h have "q = uint (data ! off) * 256 + uint (data ! (off + 1))"
    by (auto simp: readUInt16BE_def split: if_splits)
  with a b c show ?thesis by linarith
qed

lemma readUInt16BE_every_quantity:
  assumes "0 \<le> q" and "q \<le> 65535"
  shows "readUInt16BE [u, c, a1, a2, word_of_int (q div 256), word_of_int (q mod 256)] 4 = Inr q"
proof -
  have hi: "uint (word_of_int (q div 256) :: byte) = q div 256"
    using assms by (simp add: uint_word_of_int take_bit_int_eq_self)
  have lo: "uint (word_of_int (q mod 256) :: byte) = q mod 256"
    by (simp add: uint_word_of_int take_bit_eq_mod)
  show ?thesis by (simp add: readUInt16BE_def hi lo)
qed

lemma ceiling_eighths: "\<lceil>rat_of_int q / 8\<rceil> = (q + 7) div 8"
proof -
  have "\<lceil>rat_of_int q / rat_of_int 8\<rceil> = - (- q div 8)"
    by (rule ceiling_divide_eq_div)
  also have "\<dots> = (q + 7) div 8" by presburger
  finally show ?thesis by simp
qed

lemma port_write_long:
  "6 \<le> length data \<Longrightarrow> answer_length (data ! 1) data = Inr len \<Longrightarrow>
   port_write data self =
     Inr (self\<lparr>p_id := data ! 0, p_cmd := data ! 1, p_length := len\<rparr>,
          (if debug self then [Emit_debug ''send'' data] else []) @ [Client_write data])"
  by (simp add: port_write_def)

lemma answer_length_bits:
  "readUInt16BE data 4 = Inr q \<Longrightarrow> c = 1 \<or> c = 2 \<Longrightarrow>
   answer_length c data = Inr (3 + (q + 7) div 8 + 2)"
  using readUInt16BE_range [of data 4 q]
  by (auto simp: answer_length_def parseInt_eighths)

lemma answer_length_words:
  "readUInt16BE data 4 = Inr q \<Longrightarrow> c = 3 \<or> c = 4 \<Longrightarrow>
   answer_length c data = Inr (3 + 2 * q + 2)"
  by (auto simp: answer_length_def)

lemma answer_length_echo:
  "c = 5 \<or> c = 6 \<or> c = 15 \<or> c = 16 \<Longrightarrow> answer_length c data = Inr 8"
  by (auto simp: answer_length_def)

lemma answer_length_other:
  "\<not> recognized c \<Longrightarrow> answer_length c data = Inr 0"
  by (auto simp: answer_length_def recognized_def)

subsection \<open>The expected length after a send\<close>

text \<open>
  C2, as the code has it. After a write of at least 6 bytes the stored \<^verbatim>\<open>_length\<close> is 0
  or at least 5: it is 0 exactly when the command code is not recognized, and 5 exactly
  when the command code is 1, 2, 3 or 4 and the quantity field is 0; in every other case
  it is at least 6. The write returns without an error.
\<close>

theorem write_expected_length_cases:
  assumes "6 \<le> length data"
  shows "\<exists>self' es q. port_write data self = Inr (self', es) \<and> readUInt16BE data 4 = Inr q
           \<and> (p_length self' = 0 \<or> 5 \<le> p_length self')
           \<and> (p_length self' = 0 \<longleftrightarrow> \<not> recognized (data ! 1))
           \<and> (p_length self' = 5 \<longleftrightarrow>
                (data ! 1 = 1 \<or> data ! 1 = 2 \<or> data ! 1 = 3 \<or> data ! 1 = 4) \<and> q = 0)"
proof -
  define q where "q = uint (data ! 4) * 256 + uint (data ! 5)"
  have rd: "readUInt16BE data 4 = Inr q"
    using assms by (simp add: readUInt16BE_4 q_def)
  have q0: "0 \<le> q" using readUInt16BE_range [OF rd] by simp
  consider (bits) "data ! 1 = 1 \<or> data ! 1 = 2" | (words) "data ! 1 = 3 \<or> data ! 1 = 4"
    | (echo) "data ! 1 = 5 \<or> data ! 1 = 6 \<or> data ! 1 = 15 \<or> data ! 1 = 16"
    | (other) "\<not> recognized (data ! 1)"
    by (auto simp: recognized_def)
  then show ?thesis
  proof cases
    case bits
    have "(q + 7) div 8 = 0 \<longleftrightarrow> q = 0" "0 \<le> (q + 7) div 8" using q0 by presburger+
    with port_write_long [OF assms answer_length_bits [OF rd bits], of self] rd bits
    show ?thesis by (auto simp: recognized_def)
  next
    case words
    with port_write_long [OF assms answer_length_words [OF rd words], of self] rd q0
    show ?thesis by (auto simp: recognized_def)
  next
    case echo
    with port_write_long [OF assms answer_length_echo [OF echo], of self] rd
    show ?thesis by (auto simp: recognized_def)
  next
    case other
    with port_write_long [OF assms answer_length_other [OF other], of self] rd
    show ?thesis by (auto simp: recognized_def)
  qed
qed

theorem write_expected_length_cases_witness:
  "6 \<le> length [1, 2, 0, 0, 0, 9 :: byte]
   \<and> (\<exists>self' es q. port_write [1, 2, 0, 0, 0, 9] RTUBufferedPort = Inr (self', es)
         \<and> readUInt16BE [1, 2, 0, 0, 0, 9] 4 = Inr q
         \<and> (p_length self' = 0 \<or> 5 \<le> p_length self')
         \<and> (p_length self' = 0 \<longleftrightarrow> \<not> recognized ([1, 2, 0, 0, 0, 9 :: byte] ! 1))
         \<and> (p_length self' = 5 \<longleftrightarrow>
              ([1, 2, 0, 0, 0, 9 :: byte] ! 1 = 1 \<or> [1, 2, 0, 0, 0, 9 :: byte] ! 1 = 2
               \<or> [1, 2, 0, 0, 0, 9 :: byte] ! 1 = 3 \<or> [1, 2, 0, 0, 0, 9 :: byte] ! 1 = 4)
              \<and> q = 0))"
proof -
  have h: "6 \<le> length [1, 2, 0, 0, 0, 9 :: byte]" by simp
  from write_expected_length_cases [OF h, of RTUBufferedPort] h
  show ?thesis by blast
qed

text \<open>
  C2 as stated fails: a request with the recognized command code 3 and quantity 0 leaves
  \<^verbatim>\<open>_length\<close> at 5, which is neither 0 nor at least 6.
\<close>

theorem write_zero_quantity_length_5:
  "recognized 3
   \<and> port_write [1, 3, 0, 0, 0, 0] RTUBufferedPort
       = Inr (RTUBufferedPort\<lparr>p_id := 1, p_cmd := 3, p_length := 5\<rparr>,
              [Client_write [1, 3, 0, 0, 0, 0]])
   \<and> \<not> (p_length (RTUBufferedPort\<lparr>p_id := 1, p_cmd := 3, p_length := 5\<rparr>) = 0
          \<or> 6 \<le> p_length (RTUBufferedPort\<lparr>p_id := 1, p_cmd := 3, p_length := 5\<rparr>))"
  by (simp add: recognized_def port_write_def answer_length_def readUInt16BE_def
      RTUBufferedPort_def)

text \<open>
  C3. For a request of at least 6 bytes with command code 1 or 2, whose quantity field
  (the big-endian 16-bit value at offset 4) is \<open>q\<close>, the write returns and leaves
  \<^verbatim>\<open>_length\<close> at \<open>3 + ceil(q/8) + 2\<close>; and \<open>floor((q-1)/8) + 1\<close> is \<open>ceil(q/8)\<close>.
  The quantity read is between 0 and 65535 (\<open>readUInt16BE_range\<close>), and each of these
  values is the quantity of some request (\<open>readUInt16BE_every_quantity\<close>).
\<close>

theorem write_bits_expected_length:
  assumes "6 \<le> length data" and "data ! 1 = 1 \<or> data ! 1 = 2"
    and "readUInt16BE data 4 = Inr q"
  shows "\<exists>self' es. port_write data self = Inr (self', es)
           \<and> p_length self' = 3 + \<lceil>rat_of_int q / 8\<rceil> + 2
           \<and> (q - 1) div 8 + 1 = \<lceil>rat_of_int q / 8\<rceil>"
proof -
  have "answer_length (data ! 1) data = Inr (3 + (q + 7) div 8 + 2)"
    using assms(2,3) by (rule answer_length_bits [rotated])
  from port_write_long [OF assms(1) this, of self]
  have "\<exists>self' es. port_write data self = Inr (self', es)
           \<and> p_length self' = 3 + (q + 7) div 8 + 2"
    by simp
  moreover have "(q - 1) div 8 + 1 = (q + 7) div 8" by presburger
  ultimately show ?thesis by (simp add: ceiling_eighths)
qed

theorem write_bits_expected_length_witness:
  "6 \<le> length [17, 1, 0, 0, 0, 0 :: byte]
   \<and> readUInt16BE [17, 1, 0, 0, 0, 0] 4 = Inr 0
   \<and> (\<exists>self' es. port_write [17, 1, 0, 0, 0, 0] RTUBufferedPort = Inr (self', es)
         \<and> p_length self' = 3 + \<lceil>rat_of_int 0 / 8\<rceil> + 2
         \<and> (0 - 1) div 8 + 1 = \<lceil>rat_of_int 0 / 8\<rceil>)"
proof -
  have h1: "6 \<le> length [17, 1, 0, 0, 0, 0 :: byte]" by simp
  have h2: "[17, 1, 0, 0, 0, 0 :: byte] ! 1 = 1 \<or> [17, 1, 0, 0, 0, 0 :: byte] ! 1 = 2" by simp
  have h3: "readUInt16BE [17, 1, 0, 0, 0, 0] 4 = Inr 0" by (simp add: readUInt16BE_def)
  from write_bits_expected_length [OF h1 h2 h3, of RTUBufferedPort] h1 h3
  show ?thesis by blast
qed

subsection \<open>Requests that are too short\<close>

text \<open>
  C7. A write of fewer than 6 bytes returns without an error, hands nothing to the
  transport, emits nothing, and leaves the port (with \<^verbatim>\<open>_id\<close>, \<^verbatim>\<open>_cmd\<close> and \<^verbatim>\<open>_length\<close>) as
  it was.
\<close>

theorem write_short_ignored:
  "length data < 6 \<Longrightarrow> port_write data self = Inr (self, [])"
  by (simp add: port_write_def)

theorem write_short_ignored_witness:
  "length [1, 3, 0, 0, 2 :: byte] < 6
   \<and> port_write [1, 3, 0, 0, 2] (RTUBufferedPort\<lparr>p_id := 7, p_cmd := 4, p_length := 13\<rparr>)
       = Inr (RTUBufferedPort\<lparr>p_id := 7, p_cmd := 4, p_length := 13\<rparr>, [])"
  using write_short_ignored
    [of "[1, 3, 0, 0, 2]" "RTUBufferedPort\<lparr>p_id := 7, p_cmd := 4, p_length := 13\<rparr>"]
  by simp

subsection \<open>Frames raised by a receive event\<close>

text \<open>
  C5. One receive event raises at most one \<^verbatim>\<open>data\<close> event, however many complete frames
  the buffer holds; and when a frame is raised, the buffer the loop looked at is some
  prefix, then the frame, then exactly the buffer that is left: the bytes behind the
  frame stay, and nothing looks at them before the next chunk comes in.
\<close>

theorem onData_at_most_one_frame:
  "length (data_events (snd (onData data self))) \<le> 1
   \<and> (\<forall>f. Emit_data f \<in> set (snd (onData data self)) \<longrightarrow>
         (\<exists>pre. retained (p_buffer self @ data) = pre @ f @ p_buffer (fst (onData data self))))"
proof -
  let ?b = "retained (p_buffer self @ data)"
  let ?s = "self\<lparr>p_buffer := ?b\<rparr>"
  let ?r = "onData data self"
  from onData_result [of data self]
  consider (quiet) "snd ?r = []"
    | (hit) j where "6 \<le> p_length self"
        "scan_hit ?s (p_length self) (length (p_buffer self @ data))
           (length (p_buffer self @ data) - EXCEPTION_LENGTH) 0 j ?r"
    by fastforce
  then show ?thesis
  proof cases
    case quiet
    then show ?thesis by simp
  next
    case hit
    from hit(2) obtain len where len: "0 \<le> len" "?r = emitData j len ?s"
      using hit(1) by (elim scan_hit_emit) simp_all
    note f = emitData_facts [OF len]
    have one: "length (data_events (snd ?r)) \<le> 1" using f(1) by simp
    have rest: "\<exists>pre. ?b = pre @ f @ p_buffer (fst ?r)" if "Emit_data f \<in> set (snd ?r)" for f
    proof -
      have "f = take (nat len) (drop j ?b)" using f(2) [OF that] by simp
      moreover have "p_buffer (fst ?r) = drop (j + nat len) ?b" using f(3) by simp
      ultimately have "?b = take j ?b @ f @ p_buffer (fst ?r)"
        using split_at_frame [of ?b j "nat len"] by simp
      then show ?thesis by blast
    qed
    from one rest show ?thesis by blast
  qed
qed

theorem onData_at_most_one_frame_witness:
  "length (data_events (snd (onData [1, 5, 0, 7, 255, 0, 61, 251, 1, 5, 0, 8, 0, 0, 77, 200]
        (RTUBufferedPort\<lparr>p_id := 1, p_cmd := 5, p_length := 8\<rparr>)))) \<le> 1
   \<and> Emit_data [1, 5, 0, 7, 255, 0, 61, 251]
       \<in> set (snd (onData [1, 5, 0, 7, 255, 0, 61, 251, 1, 5, 0, 8, 0, 0, 77, 200]
                 (RTUBufferedPort\<lparr>p_id := 1, p_cmd := 5, p_length := 8\<rparr>)))
   \<and> (\<exists>pre. retained (p_buffer (RTUBufferedPort\<lparr>p_id := 1, p_cmd := 5, p_length := 8\<rparr>)
                     @ [1, 5, 0, 7, 255, 0, 61, 251, 1, 5, 0, 8, 0, 0, 77, 200])
            = pre @ [1, 5, 0, 7, 255, 0, 61, 251]
                @ p_buffer (fst (onData [1, 5, 0, 7, 255, 0, 61, 251, 1, 5, 0, 8, 0, 0, 77, 200]
                     (RTUBufferedPort\<lparr>p_id := 1, p_cmd := 5, p_length := 8\<rparr>))))
   \<and> onData [1, 5, 0, 7, 255, 0, 61, 251, 1, 5, 0, 8, 0, 0, 77, 200]
        (RTUBufferedPort\<lparr>p_id := 1, p_cmd := 5, p_length := 8\<rparr>)
      = (RTUBufferedPort\<lparr>p_id := 1, p_cmd := 5, p_length := 8,
                          p_buffer := [1, 5, 0, 8, 0, 0, 77, 200]\<rparr>,
         [Emit_data [1, 5, 0, 7, 255, 0, 61, 251]])
   \<and> onData [] (RTUBufferedPort\<lparr>p_id := 1, p_cmd := 5, p_length := 8,
                                  p_buffer := [1, 5, 0, 8, 0, 0, 77, 200]\<rparr>)
      = (RTUBufferedPort\<lparr>p_id := 1, p_cmd := 5, p_length := 8, p_buffer := []\<rparr>,
         [Emit_data [1, 5, 0, 8, 0, 0, 77, 200]])"
proof -
  let ?chunk = "[1, 5, 0, 7, 255, 0, 61, 251, 1, 5, 0, 8, 0, 0, 77, 200] :: byte list"
  let ?s = "RTUBufferedPort\<lparr>p_id := 1, p_cmd := 5, p_length := 8\<rparr>"
  let ?f = "[1, 5, 0, 7, 255, 0, 61, 251] :: byte list"
  have a: "onData ?chunk ?s
      = (RTUBufferedPort\<lparr>p_id := 1, p_cmd := 5, p_length := 8,
                          p_buffer := [1, 5, 0, 8, 0, 0, 77, 200]\<rparr>,
         [Emit_data ?f])"
    by (simp add: eval_onData)
  have b: "onData [] (RTUBufferedPort\<lparr>p_id := 1, p_cmd := 5, p_length := 8,
                                  p_buffer := [1, 5, 0, 8, 0, 0, 77, 200]\<rparr>)
      = (RTUBufferedPort\<lparr>p_id := 1, p_cmd := 5, p_length := 8, p_buffer := []\<rparr>,
         [Emit_data [1, 5, 0, 8, 0, 0, 77, 200]])"
    by (simp add: eval_onData)
  note t = onData_at_most_one_frame [of ?chunk ?s]
  from t have one: "length (data_events (snd (onData ?chunk ?s))) \<le> 1"
    by (rule conjunct1)
  have raised: "Emit_data ?f \<in> set (snd (onData ?chunk ?s))"
    unfolding a by simp
  from t have "\<forall>f. Emit_data f \<in> set (snd (onData ?chunk ?s)) \<longrightarrow>
         (\<exists>pre. retained (p_buffer ?s @ ?chunk) = pre @ f @ p_buffer (fst (onData ?chunk ?s)))"
    by (rule conjunct2)
  then have "Emit_data ?f \<in> set (snd (onData ?chunk ?s)) \<longrightarrow>
         (\<exists>pre. retained (p_buffer ?s @ ?chunk) = pre @ ?f @ p_buffer (fst (onData ?chunk ?s)))"
    by (rule spec)
  from this raised
  have rest: "\<exists>pre. retained (p_buffer ?s @ ?chunk) = pre @ ?f @ p_buffer (fst (onData ?chunk ?s))"
    by (rule mp)
  from one raised rest a b show ?thesis by (intro conjI)
qed

subsection \<open>The shape of a raised frame\<close>

text \<open>
  C10. When the buffer with the chunk appended holds at most \<open>MAX_BUFFER_LENGTH\<close> bytes,
  a frame raised by the receive event starts with the expected unit identifier, followed
  by the expected command code (the frame then has exactly \<^verbatim>\<open>_length\<close> bytes) or by
  \<open>0x80 OR\<close> the command code (the frame then has exactly 5 bytes).
\<close>

theorem onData_frame_shape:
  assumes "length (p_buffer self @ data) \<le> MAX_BUFFER_LENGTH"
    and "Emit_data f \<in> set (snd (onData data self))"
  shows "(\<exists>rest. f = p_id self # p_cmd self # rest \<and> int (length f) = p_length self)
         \<or> (\<exists>rest. f = p_id self # (0x80 OR p_cmd self) # rest \<and> length f = EXCEPTION_LENGTH)"
proof -
  let ?b = "p_buffer self @ data"
  let ?s = "self\<lparr>p_buffer := ?b\<rparr>"
  let ?r = "onData data self"
  have ret: "retained ?b = ?b" using assms(1) by (simp add: retained_def)
  from onData_result [of data self] assms(2)
  obtain j where e: "6 \<le> p_length self"
    and hit: "scan_hit ?s (p_length self) (length ?b) (length ?b - EXCEPTION_LENGTH) 0 j ?r"
    unfolding ret by fastforce
  from hit have j: "j \<le> length ?b - EXCEPTION_LENGTH" and idj: "buf_at ?b j = Some (p_id self)"
    by (simp_all add: scan_hit_def)
  from idj have jl: "j < length ?b" and bj: "?b ! j = p_id self"
    by (simp_all add: buf_at_def split: if_splits)
  from hit consider
    (normal) "buf_at ?b (j + 1) = Some (p_cmd self)" "int j + p_length self \<le> int (length ?b)"
      "?r = emitData j (p_length self) ?s"
    | (exception) "buf_at ?b (j + 1) = Some (0x80 OR p_cmd self)"
      "j + EXCEPTION_LENGTH \<le> length ?b" "?r = emitData j (int EXCEPTION_LENGTH) ?s"
    by (auto simp: scan_hit_def)
  then show ?thesis
  proof cases
    case normal
    from normal(1) have j1: "j + 1 < length ?b" and b1: "?b ! (j + 1) = p_cmd self"
      by (simp_all add: buf_at_def split: if_splits)
    have len0: "0 \<le> p_length self" using e by simp
    have f: "f = take (nat (p_length self)) (drop j ?b)"
      using emitData_facts(2) [OF len0 normal(3) assms(2)] by simp
    have n2: "2 \<le> nat (p_length self)" using e by simp
    have "f = p_id self # p_cmd self # take (nat (p_length self) - 2) (drop (j + 2) ?b)"
      unfolding f take_drop_head2 [OF j1 n2] bj b1 ..
    moreover have "int (length f) = p_length self"
      unfolding f using normal(2) len0 by simp
    ultimately show ?thesis by blast
  next
    case exception
    from exception(1) have j1: "j + 1 < length ?b" and b1: "?b ! (j + 1) = 0x80 OR p_cmd self"
      by (simp_all add: buf_at_def split: if_splits)
    have len0: "0 \<le> int EXCEPTION_LENGTH" by simp
    have f: "f = take EXCEPTION_LENGTH (drop j ?b)"
      using emitData_facts(2) [OF len0 exception(3) assms(2)] by simp
    have n2: "2 \<le> EXCEPTION_LENGTH" by (simp add: EXCEPTION_LENGTH_def)
    have "f = p_id self # (0x80 OR p_cmd self) # take (EXCEPTION_LENGTH - 2) (drop (j + 2) ?b)"
      unfolding f take_drop_head2 [OF j1 n2] bj b1 ..
    moreover have "length f = EXCEPTION_LENGTH"
      unfolding f using exception(2) by simp
    ultimately show ?thesis by blast
  qed
qed

theorem onData_frame_shape_witness:
  "length (p_buffer (RTUBufferedPort\<lparr>p_id := 1, p_cmd := 3, p_length := 9\<rparr>)
           @ [9, 1, 3, 4, 0, 1, 0, 2, 10, 11, 12]) \<le> MAX_BUFFER_LENGTH
   \<and> Emit_data [1, 3, 4, 0, 1, 0, 2, 10, 11]
       \<in> set (snd (onData [9, 1, 3, 4, 0, 1, 0, 2, 10, 11, 12]
                     (RTUBufferedPort\<lparr>p_id := 1, p_cmd := 3, p_length := 9\<rparr>)))
   \<and> ((\<exists>rest. [1, 3, 4, 0, 1, 0, 2, 10, 11]
                 = p_id (RTUBufferedPort\<lparr>p_id := 1, p_cmd := 3, p_length := 9\<rparr>)
                   # p_cmd (RTUBufferedPort\<lparr>p_id := 1, p_cmd := 3, p_length := 9\<rparr>) # rest
               \<and> int (length [1, 3, 4, 0, 1, 0, 2, 10, 11 :: byte])
                   = p_length (RTUBufferedPort\<lparr>p_id := 1, p_cmd := 3, p_length := 9\<rparr>))
        \<or> (\<exists>rest. [1, 3, 4, 0, 1, 0, 2, 10, 11]
                 = p_id (RTUBufferedPort\<lparr>p_id := 1, p_cmd := 3, p_length := 9\<rparr>)
                   # (0x80 OR p_cmd (RTUBufferedPort\<lparr>p_id := 1, p_cmd := 3, p_length := 9\<rparr>))
                   # rest
               \<and> length [1, 3, 4, 0, 1, 0, 2, 10, 11 :: byte] = EXCEPTION_LENGTH))"
proof -
  have h1: "length (p_buffer (RTUBufferedPort\<lparr>p_id := 1, p_cmd := 3, p_length := 9\<rparr>)
           @ [9, 1, 3, 4, 0, 1, 0, 2, 10, 11, 12]) \<le> MAX_BUFFER_LENGTH"
    by (simp add: RTUBufferedPort_def MAX_BUFFER_LENGTH_def)
  have h2: "Emit_data [1, 3, 4, 0, 1, 0, 2, 10, 11]
       \<in> set (snd (onData [9, 1, 3, 4, 0, 1, 0, 2, 10, 11, 12]
                     (RTUBufferedPort\<lparr>p_id := 1, p_cmd := 3, p_length := 9\<rparr>)))"
    by (simp add: eval_onData)
  from onData_frame_shape [OF h1 h2] h1 h2 show ?thesis by blast
qed

text \<open>
  Without the bound on the appended buffer the shape is lost: the loop still compares
  against the length read before the buffer was cut, so here a frame of 256 bytes is
  raised while \<^verbatim>\<open>_length\<close> is 259.
\<close>

lemma stale_length_short_frame:
  "onData ([7, 7, 7, 1, 3] @ replicate 254 0)
     \<lparr>p_buffer = [], p_id = 1, p_cmd = 3, p_length = 259, debug = False\<rparr>
   = (\<lparr>p_buffer = [], p_id = 1, p_cmd = 3, p_length = 259, debug = False\<rparr>,
      [Emit_data ([1, 3] @ replicate 254 0)])
   \<and> length ([1, 3] @ replicate 254 (0 :: byte)) = 256"
  by (simp add: onData_def Let_def EXCEPTION_LENGTH_def MAX_BUFFER_LENGTH_def buf_at_def
      scan.simps [of _ _ _ _ 0] emitData_nat buffer_slice_from_neg)

subsection \<open>The cap on the buffer\<close>

text \<open>
  C1, at the failing input. On a port that has sent nothing (\<^verbatim>\<open>_length\<close> is 0) a chunk
  of 257 bytes is appended and kept whole: the handler returns at line 42, before the cut
  of lines 45 to 47, and the buffer holds 257 bytes, more than \<open>MAX_BUFFER_LENGTH\<close>.
  (\<open>onData_capped_when_armed\<close> above is the path that does cut: with \<^verbatim>\<open>_length\<close> at
  least 6 the buffer never holds more than \<open>MAX_BUFFER_LENGTH\<close> bytes after the handler.)
\<close>

theorem unarmed_buffer_exceeds_cap:
  "p_length RTUBufferedPort = 0
   \<and> onData (replicate 257 0) RTUBufferedPort
       = (RTUBufferedPort\<lparr>p_buffer := replicate 257 0\<rparr>, [])
   \<and> MAX_BUFFER_LENGTH < length (p_buffer (fst (onData (replicate 257 0) RTUBufferedPort)))"
  by (simp add: onData_def Let_def RTUBufferedPort_def MAX_BUFFER_LENGTH_def)

subsection \<open>The exception frame of scenario 2\<close>

text \<open>
  C4. After the send of \<^verbatim>\<open>[0x01,0x03,0x00,0x00,0x00,0x02,...]\<close> on a port with an empty
  buffer, \<^verbatim>\<open>_id\<close> is 1, \<^verbatim>\<open>_cmd\<close> is 3 and \<^verbatim>\<open>_length\<close> is 9; the chunk
  \<^verbatim>\<open>[0x01,0x83,0x02,CRC_LO,CRC_HI]\<close> then raises exactly one \<^verbatim>\<open>data\<close> event, carrying
  those 5 bytes, and leaves the buffer empty. This holds for every pair of CRC bytes,
  every tail of the request and either setting of \<^verbatim>\<open>debug\<close>.
\<close>

theorem exception_frame_scenario:
  "\<exists>self1 es.
     port_write ([0x01, 0x03, 0x00, 0x00, 0x00, 0x02] @ crc) (self\<lparr>p_buffer := []\<rparr>)
       = Inr (self1, es)
     \<and> p_id self1 = 0x01 \<and> p_cmd self1 = 0x03 \<and> p_length self1 = 9
     \<and> data_events (snd (onData [0x01, 0x83, 0x02, crc_lo, crc_hi] self1))
         = [ [0x01, 0x83, 0x02, crc_lo, crc_hi] ]
     \<and> p_buffer (fst (onData [0x01, 0x83, 0x02, crc_lo, crc_hi] self1)) = []"
  by (simp add: port_write_def answer_length_def readUInt16BE_def eval_onData)

theorem exception_frame_scenario_witness:
  "\<exists>self1 es.
     port_write ([0x01, 0x03, 0x00, 0x00, 0x00, 0x02] @ [0xC4, 0x0B]) (RTUBufferedPort\<lparr>p_buffer := []\<rparr>)
       = Inr (self1, es)
     \<and> p_id self1 = 0x01 \<and> p_cmd self1 = 0x03 \<and> p_length self1 = 9
     \<and> data_events (snd (onData [0x01, 0x83, 0x02, 0xC0, 0xF1] self1))
         = [ [0x01, 0x83, 0x02, 0xC0, 0xF1] ]
     \<and> p_buffer (fst (onData [0x01, 0x83, 0x02, 0xC0, 0xF1] self1)) = []"
  by (rule exception_frame_scenario)

subsection \<open>The debug record of a received frame\<close>

text \<open>
  C9, at the failing input. With \<^verbatim>\<open>debug\<close> on, the frame raised comes with a debug
  event carrying the same bytes, but the action of its record is the string
  \<^verbatim>\<open>recive\<close> (line 85), not \<^verbatim>\<open>receive\<close>.
\<close>

theorem receive_debug_action_misspelt:
  "onData [0x01, 0x83, 0x02, 0xC0, 0xF1]
     \<lparr>p_buffer = [], p_id = 1, p_cmd = 3, p_length = 9, debug = True\<rparr>
   = (\<lparr>p_buffer = [], p_id = 1, p_cmd = 3, p_length = 9, debug = True\<rparr>,
      [Emit_debug ''recive'' [0x01, 0x83, 0x02, 0xC0, 0xF1],
       Emit_data [0x01, 0x83, 0x02, 0xC0, 0xF1]])
   \<and> ''recive'' \<noteq> ''receive''"
  by (simp add: eval_onData)

subsection \<open>Unrecognized commands\<close>

text \<open>
  C8. A write of at least 6 bytes whose command code is not recognized returns and
  leaves \<^verbatim>\<open>_length\<close> at 0; after it, whatever chunks come in and however they are cut,
  no \<^verbatim>\<open>data\<close> event is raised, \<^verbatim>\<open>_length\<close> stays 0 and the bytes only pile up in the
  buffer. (Only a write changes \<^verbatim>\<open>_length\<close>.)
\<close>

theorem unrecognized_command_disables_matching:
  assumes "6 \<le> length req" and "\<not> recognized (req ! 1)"
  shows "\<exists>self1 es. port_write req self = Inr (self1, es) \<and> p_length self1 = 0
           \<and> (\<forall>chunks. data_events (snd (receive_all chunks self1)) = []
                 \<and> p_length (fst (receive_all chunks self1)) = 0
                 \<and> p_buffer (fst (receive_all chunks self1)) = p_buffer self @ concat chunks)"
proof -
  let ?s = "self\<lparr>p_id := req ! 0, p_cmd := req ! 1, p_length := 0\<rparr>"
  have w: "port_write req self =
     Inr (?s, (if debug self then [Emit_debug ''send'' req] else []) @ [Client_write req])"
    using port_write_long [OF assms(1) answer_length_other [OF assms(2)]] .
  have "receive_all chunks ?s = (?s\<lparr>p_buffer := p_buffer ?s @ concat chunks\<rparr>, [])" for chunks
    by (rule receive_all_gated) simp
  then show ?thesis unfolding w by simp
qed

theorem unrecognized_command_disables_matching_witness:
  "6 \<le> length [1, 99, 0, 0, 0, 2, 7, 7 :: byte] \<and> \<not> recognized ([1, 99, 0, 0, 0, 2, 7, 7] ! 1)
   \<and> (\<exists>self1 es. port_write [1, 99, 0, 0, 0, 2, 7, 7] RTUBufferedPort = Inr (self1, es) \<and> p_length self1 = 0
           \<and> (\<forall>chunks. data_events (snd (receive_all chunks self1)) = []
                 \<and> p_length (fst (receive_all chunks self1)) = 0
                 \<and> p_buffer (fst (receive_all chunks self1)) = p_buffer RTUBufferedPort @ concat chunks))"
proof -
  have h1: "6 \<le> length [1, 99, 0, 0, 0, 2, 7, 7 :: byte]" by simp
  have h2: "\<not> recognized ([1, 99, 0, 0, 0, 2, 7, 7] ! 1)" by (simp add: recognized_def)
  from unrecognized_command_disables_matching [OF h1 h2, of RTUBufferedPort] h1 h2
  show ?thesis by blast
qed

subsection \<open>A response delivered byte by byte\<close>

text \<open>
  C6, as the code has it. Take a request of at least 6 bytes with a recognized command
  code, written on a port with an empty buffer, and a frame that starts with the stored
  \<^verbatim>\<open>_id\<close> and \<^verbatim>\<open>_cmd\<close> and has exactly \<^verbatim>\<open>_length\<close> bytes, where \<^verbatim>\<open>_length\<close> is at least 6
  and at most \<open>MAX_BUFFER_LENGTH\<close>. Delivering the frame one byte at a time gives the
  same port and the same events as delivering it as one chunk: exactly one \<^verbatim>\<open>data\<close> event,
  carrying the frame, and an empty buffer.
\<close>

theorem bytewise_delivery_reconstructs_frame:
  assumes "6 \<le> length req" and "recognized (req ! 1)"
    and "port_write req self = Inr (self1, es)"
    and "p_buffer self = []"
    and "frame = p_id self1 # p_cmd self1 # rest"
    and "int (length frame) = p_length self1"
    and "6 \<le> p_length self1" and "p_length self1 \<le> int MAX_BUFFER_LENGTH"
  shows "receive_all (single_bytes frame) self1 = onData frame self1
         \<and> data_events (snd (receive_all (single_bytes frame) self1)) = [frame]
         \<and> p_buffer (fst (receive_all (single_bytes frame) self1)) = []"
proof -
  let ?out = "(self1\<lparr>p_buffer := []\<rparr>,
      (if debug self1 then [Emit_debug ''recive'' frame] else []) @ [Emit_data frame])"
  from assms(1,3) have s1: "p_buffer self1 = p_buffer self" "p_cmd self1 = req ! 1"
    by (auto simp: port_write_def split: sum.splits)
  have empty: "p_buffer self1 = []" using s1(1) assms(4) by simp
  have rc: "recognized (p_cmd self1)" using s1(2) assms(2) by simp
  have len: "6 \<le> length frame" "length frame \<le> MAX_BUFFER_LENGTH"
    using assms(6,7,8) by simp_all
  have ne: "frame \<noteq> []" using len(1) by auto
  have same: "self1\<lparr>p_buffer := []\<rparr> = self1" using empty by simp
  have "receive_all (map (\<lambda>b. [b]) frame) (self1\<lparr>p_buffer := []\<rparr>) = ?out"
    by (rule receive_bytewise [OF assms(5) len rc refl refl assms(6) [symmetric] _ ne]) simp
  then have bytewise: "receive_all (single_bytes frame) self1 = ?out"
    unfolding same single_bytes_def .
  have "p_buffer self1 @ frame = frame" using empty by simp
  from onData_complete [OF assms(5) assms(6) [symmetric] len this]
  have chunk: "onData frame self1 = ?out" .
  show ?thesis unfolding bytewise chunk by simp
qed

theorem bytewise_delivery_reconstructs_frame_witness:
  "6 \<le> length [1, 3, 0, 0, 0, 2, 196, 11 :: byte]
   \<and> recognized ([1, 3, 0, 0, 0, 2, 196, 11] ! 1)
   \<and> port_write [1, 3, 0, 0, 0, 2, 196, 11] RTUBufferedPort
       = Inr (RTUBufferedPort\<lparr>p_id := 1, p_cmd := 3, p_length := 9\<rparr>,
              [Client_write [1, 3, 0, 0, 0, 2, 196, 11]])
   \<and> receive_all (single_bytes [1, 3, 4, 0, 1, 0, 2, 42, 50])
         (RTUBufferedPort\<lparr>p_id := 1, p_cmd := 3, p_length := 9\<rparr>)
       = onData [1, 3, 4, 0, 1, 0, 2, 42, 50] (RTUBufferedPort\<lparr>p_id := 1, p_cmd := 3, p_length := 9\<rparr>)
   \<and> data_events (snd (receive_all (single_bytes [1, 3, 4, 0, 1, 0, 2, 42, 50])
         (RTUBufferedPort\<lparr>p_id := 1, p_cmd := 3, p_length := 9\<rparr>)))
       = [ [1, 3, 4, 0, 1, 0, 2, 42, 50] ]
   \<and> p_buffer (fst (receive_all (single_bytes [1, 3, 4, 0, 1, 0, 2, 42, 50])
         (RTUBufferedPort\<lparr>p_id := 1, p_cmd := 3, p_length := 9\<rparr>))) = []"
proof -
  let ?s = "RTUBufferedPort\<lparr>p_id := 1, p_cmd := 3, p_length := 9\<rparr>"
  have h1: "6 \<le> length [1, 3, 0, 0, 0, 2, 196, 11 :: byte]" by simp
  have h2: "recognized ([1, 3, 0, 0, 0, 2, 196, 11] ! 1)" by (simp add: recognized_def)
  have h3: "port_write [1, 3, 0, 0, 0, 2, 196, 11] RTUBufferedPort
       = Inr (?s, [Client_write [1, 3, 0, 0, 0, 2, 196, 11]])"
    by (simp add: port_write_def answer_length_def readUInt16BE_def RTUBufferedPort_def)
  have h4: "p_buffer RTUBufferedPort = []" by (simp add: RTUBufferedPort_def)
  have h5: "[1, 3, 4, 0, 1, 0, 2, 42, 50] = p_id ?s # p_cmd ?s # [4, 0, 1, 0, 2, 42, 50]"
    by simp
  have h6: "int (length [1, 3, 4, 0, 1, 0, 2, 42, 50 :: byte]) = p_length ?s" by simp
  have h7: "6 \<le> p_length ?s" by simp
  have h8: "p_length ?s \<le> int MAX_BUFFER_LENGTH" by (simp add: MAX_BUFFER_LENGTH_def)
  from bytewise_delivery_reconstructs_frame [OF h1 h2 h3 h4 h5 h6 h7 h8] h1 h2 h3
  show ?thesis by blast
qed

text \<open>
  C6 as stated fails outside these bounds. The request \<^verbatim>\<open>[1,3,0,0,0,0]\<close> has a recognized
  command code and the expected length 5; its predicted response of 5 bytes raises no
  \<^verbatim>\<open>data\<close> event, neither byte by byte nor as one chunk. The request \<^verbatim>\<open>[1,3,0,0,0,127]\<close>
  has the expected length 259; its predicted response, delivered as one chunk, raises no
  \<^verbatim>\<open>data\<close> event either, since the handler only keeps the last 256 bytes.
\<close>

theorem predicted_response_not_raised:
  "recognized 3
   \<and> port_write [1, 3, 0, 0, 0, 0] RTUBufferedPort
       = Inr (RTUBufferedPort\<lparr>p_id := 1, p_cmd := 3, p_length := 5\<rparr>,
              [Client_write [1, 3, 0, 0, 0, 0]])
   \<and> int (length [1, 3, 0, 32, 240 :: byte]) = 5
   \<and> data_events (snd (receive_all (single_bytes [1, 3, 0, 32, 240])
         (RTUBufferedPort\<lparr>p_id := 1, p_cmd := 3, p_length := 5\<rparr>))) = []
   \<and> data_events (snd (onData [1, 3, 0, 32, 240]
         (RTUBufferedPort\<lparr>p_id := 1, p_cmd := 3, p_length := 5\<rparr>))) = []
   \<and> port_write [1, 3, 0, 0, 0, 127] RTUBufferedPort
       = Inr (RTUBufferedPort\<lparr>p_id := 1, p_cmd := 3, p_length := 259\<rparr>,
              [Client_write [1, 3, 0, 0, 0, 127]])
   \<and> int (length ([1, 3, 254] @ replicate 256 (0 :: byte))) = 259
   \<and> data_events (snd (onData ([1, 3, 254] @ replicate 256 0)
         (RTUBufferedPort\<lparr>p_id := 1, p_cmd := 3, p_length := 259\<rparr>))) = []"
proof (intro conjI)
  show "data_events (snd (onData ([1, 3, 254] @ replicate 256 0)
         (RTUBufferedPort\<lparr>p_id := 1, p_cmd := 3, p_length := 259\<rparr>))) = []"
    by (simp add: onData_scan retained_eq scan_no_id EXCEPTION_LENGTH_def MAX_BUFFER_LENGTH_def
        RTUBufferedPort_def)
qed (simp_all add: recognized_def port_write_def answer_length_def readUInt16BE_def
      RTUBufferedPort_def receive_all_gated onData_gated single_bytes_def)

end
